theory Spec2Isabelle
  imports Complex_Main
begin

section \<open>Geodesic sphere generation: the data model\<close>

text \<open>
  The development follows \<^verbatim>\<open>lib/geodesic_math.py\<close>, class \<^verbatim>\<open>GeodesicCalculator\<close>.
  A point is a Python tuple of three floats, a face a tuple of three list indices.
  Coordinates are modelled as real numbers: the arithmetic of the model is exact, the
  round-off of binary floating point is not represented. Indices and the frequency are
  natural numbers, as every index the program builds comes from \<^verbatim>\<open>len\<close> and
  \<^verbatim>\<open>range\<close>.
\<close>

type_synonym point = "real \<times> real \<times> real"
type_synonym face = "nat \<times> nat \<times> nat"
type_synonym key = "real \<times> real \<times> real"

text \<open>The exceptions the Python operations in this file can raise.\<close>

datatype error = ZeroDivisionError | ValueError | IndexError | KeyError

text \<open>Sequencing of computations that may raise: the first exception is propagated.\<close>

definition bind_result :: "error + 'a \<Rightarrow> ('a \<Rightarrow> error + 'b) \<Rightarrow> error + 'b" where
  "bind_result m f = (case m of Inl e \<Rightarrow> Inl e | Inr x \<Rightarrow> f x)"

text \<open>A \<^verbatim>\<open>for\<close> loop over a list whose body may raise, threading the loop's state.\<close>

primrec for_each :: "('a \<Rightarrow> 's \<Rightarrow> error + 's) \<Rightarrow> 'a list \<Rightarrow> 's \<Rightarrow> error + 's" where
  "for_each body [] s = Inr s"
| "for_each body (x # xs) s = bind_result (body x s) (for_each body xs)"


text \<open>Python's primitive operations, with their exceptions.\<close>

definition py_truediv :: "real \<Rightarrow> real \<Rightarrow> error + real" where
  "py_truediv x y = (if y = 0 then Inl ZeroDivisionError else Inr (x / y))"

definition py_sqrt :: "real \<Rightarrow> error + real" where
  "py_sqrt x = (if x < 0 then Inl ValueError else Inr (sqrt x))"

definition py_index :: "'a list \<Rightarrow> nat \<Rightarrow> error + 'a" where
  "py_index xs i = (if i < length xs then Inr (xs ! i) else Inl IndexError)"

definition py_lookup :: "('k \<rightharpoonup> 'v) \<Rightarrow> 'k \<Rightarrow> error + 'v" where
  "py_lookup m k = (case m k of None \<Rightarrow> Inl KeyError | Some v \<Rightarrow> Inr v)"

text \<open>
  \<^verbatim>\<open>round(x, n)\<close> on a float: the nearest multiple of \<open>10\<^sup>-\<^sup>n\<close>, a tie going to
  the even multiple.
\<close>

definition round_half_even :: "real \<Rightarrow> int" where
  "round_half_even y =
     (let f = \<lfloor>y\<rfloor>; d = y - of_int f
      in if d < 1 / 2 then f else if 1 / 2 < d then f + 1 else if even f then f else f + 1)"

definition py_round :: "real \<Rightarrow> nat \<Rightarrow> real" where
  "py_round x n = of_int (round_half_even (x * 10 ^ n)) / 10 ^ n"

text \<open>\<^verbatim>\<open>key = tuple(round(coord, 8) for coord in v)\<close>\<close>

definition key_of :: "point \<Rightarrow> key" where
  "key_of v = (case v of (x, y, z) \<Rightarrow> (py_round x 8, py_round y 8, py_round z 8))"

section \<open>Normalize and scale\<close>

text \<open>
  \<^verbatim>\<open>_normalize_and_scale(self, v)\<close>, lines 130-140; \<open>radius\<close> is \<^verbatim>\<open>self.radius\<close>.
\<close>

definition normalize_and_scale :: "real \<Rightarrow> point \<Rightarrow> error + point" where
  "normalize_and_scale radius v =
     (case v of (x, y, z) \<Rightarrow>
        bind_result (py_sqrt (x * x + y * y + z * z)) (\<lambda>length.
          if length = 0 then Inr (0, 0, 0)
          else
            bind_result (py_truediv (radius * x) length) (\<lambda>px.
            bind_result (py_truediv (radius * y) length) (\<lambda>py.
            bind_result (py_truediv (radius * z) length) (\<lambda>pz.
              Inr (px, py, pz))))))"

text \<open>The value \<open>normalize_and_scale\<close> computes, as a plain function.\<close>

definition projected :: "real \<Rightarrow> point \<Rightarrow> point" where
  "projected radius v =
     (case v of (x, y, z) \<Rightarrow>
        (let l = sqrt (x * x + y * y + z * z)
         in if l = 0 then (0, 0, 0) else (radius * x / l, radius * y / l, radius * z / l)))"

section \<open>The base icosahedron\<close>




section \<open>Subdividing one triangle\<close>

text \<open>
  \<^verbatim>\<open>_subdivide_triangle(self, v0, v1, v2, freq)\<close>, lines 77-128. The statement
  \<^verbatim>\<open>if key not in vert_map: vert_map[key] = len(verts); verts.append(pt)\<close> occurs here
  (lines 107-109) and, with other names, in the merge (lines 172-174).
\<close>

definition register_vertex ::
  "point \<Rightarrow> point list \<times> (key \<rightharpoonup> nat) \<Rightarrow> point list \<times> (key \<rightharpoonup> nat)" where
  "register_vertex pt st =
     (case st of (verts, vert_map) \<Rightarrow>
        (let key = key_of pt
         in if vert_map key = None then (verts @ [pt], vert_map(key \<mapsto> length verts))
            else (verts, vert_map)))"

text \<open>Lines 89-95: the barycentric weights \<open>a\<close> and \<open>b\<close> of grid position \<open>(i, j)\<close>.\<close>

definition barycentric_weights :: "nat \<Rightarrow> nat \<Rightarrow> nat \<Rightarrow> error + (real \<times> real)" where
  "barycentric_weights freq i j =
     (if freq > 0 then
        bind_result (py_truediv (real i) (real freq)) (\<lambda>a.
        bind_result (py_truediv (real j) (real freq)) (\<lambda>b. Inr (a, b)))
      else Inr (0, 0))"

text \<open>Lines 95-103: interpolate between the corners and project to the sphere.\<close>

definition grid_point ::
  "real \<Rightarrow> point \<Rightarrow> point \<Rightarrow> point \<Rightarrow> nat \<Rightarrow> nat \<Rightarrow> nat \<Rightarrow> error + point" where
  "grid_point radius v0 v1 v2 freq i j =
     bind_result (barycentric_weights freq i j) (\<lambda>(a, b).
       let c = 1 - a - b;
           x = a * fst v0 + b * fst v1 + c * fst v2;
           y = a * fst (snd v0) + b * fst (snd v1) + c * fst (snd v2);
           z = a * snd (snd v0) + b * snd (snd v1) + c * snd (snd v2)
       in normalize_and_scale radius (x, y, z))"

text \<open>The body of the inner loop, lines 88-111, on the state \<open>(verts, vert_map, row)\<close>.\<close>

definition add_grid_point ::
  "real \<Rightarrow> point \<Rightarrow> point \<Rightarrow> point \<Rightarrow> nat \<Rightarrow> nat \<Rightarrow> nat \<Rightarrow>
   point list \<times> (key \<rightharpoonup> nat) \<times> nat list \<Rightarrow> error + (point list \<times> (key \<rightharpoonup> nat) \<times> nat list)" where
  "add_grid_point radius v0 v1 v2 freq i j st =
     (case st of (verts, vert_map, row) \<Rightarrow>
        bind_result (grid_point radius v0 v1 v2 freq i j) (\<lambda>pt.
          case register_vertex pt (verts, vert_map) of (verts', vert_map') \<Rightarrow>
            bind_result (py_lookup vert_map' (key_of pt)) (\<lambda>k.
              Inr (verts', vert_map', row @ [k]))))"

text \<open>The body of the outer loop, lines 86-112, on the state \<open>(verts, vert_map, grid)\<close>.\<close>

definition build_row ::
  "real \<Rightarrow> point \<Rightarrow> point \<Rightarrow> point \<Rightarrow> nat \<Rightarrow> nat \<Rightarrow>
   point list \<times> (key \<rightharpoonup> nat) \<times> nat list list \<Rightarrow>
   error + (point list \<times> (key \<rightharpoonup> nat) \<times> nat list list)" where
  "build_row radius v0 v1 v2 freq i st =
     (case st of (verts, vert_map, grid) \<Rightarrow>
        bind_result
          (for_each (add_grid_point radius v0 v1 v2 freq i) [0..<freq + 1 - i] (verts, vert_map, []))
          (\<lambda>(verts', vert_map', row). Inr (verts', vert_map', grid @ [row])))"

definition build_grid ::
  "real \<Rightarrow> point \<Rightarrow> point \<Rightarrow> point \<Rightarrow> nat \<Rightarrow>
   error + (point list \<times> (key \<rightharpoonup> nat) \<times> nat list list)" where
  "build_grid radius v0 v1 v2 freq =
     for_each (build_row radius v0 v1 v2 freq) [0..<freq + 1] ([], Map.empty, [])"

text \<open>\<^verbatim>\<open>grid[i][j]\<close>\<close>

definition grid_at :: "nat list list \<Rightarrow> nat \<Rightarrow> nat \<Rightarrow> error + nat" where
  "grid_at grid i j = bind_result (py_index grid i) (\<lambda>row. py_index row j)"

text \<open>The body of the face loop, lines 117-126.\<close>

definition emit_cell :: "nat list list \<Rightarrow> nat \<Rightarrow> nat \<Rightarrow> nat \<Rightarrow> face list \<Rightarrow> error + face list" where
  "emit_cell grid freq i j faces =
     bind_result (grid_at grid i j) (\<lambda>vA.
     bind_result (grid_at grid (i + 1) j) (\<lambda>vB.
     bind_result (grid_at grid i (j + 1)) (\<lambda>vC.
       let faces' = faces @ [(vA, vB, vC)]
       in if j < freq - i - 1 then
            bind_result (grid_at grid (i + 1) (j + 1)) (\<lambda>vD. Inr (faces' @ [(vB, vD, vC)]))
          else Inr faces')))"

definition build_faces :: "nat list list \<Rightarrow> nat \<Rightarrow> error + face list" where
  "build_faces grid freq =
     for_each (\<lambda>i. for_each (emit_cell grid freq i) [0..<freq - i]) [0..<freq] []"

definition subdivide_triangle ::
  "real \<Rightarrow> point \<Rightarrow> point \<Rightarrow> point \<Rightarrow> nat \<Rightarrow> error + (point list \<times> face list)" where
  "subdivide_triangle radius v0 v1 v2 freq =
     bind_result (build_grid radius v0 v1 v2 freq) (\<lambda>(verts, vert_map, grid).
     bind_result (build_faces grid freq) (\<lambda>faces. Inr (verts, faces)))"

section \<open>Merging duplicate vertices\<close>

text \<open>
  \<^verbatim>\<open>_merge_duplicates(self, verts, faces)\<close>, lines 142-188. The first loop (lines 148-157)
  stores under the integer \<open>i\<close> and looks up under the tuple \<open>key\<close>, so its dictionary
  has keys of both kinds.
\<close>

definition merge_first_pass ::
  "nat \<times> point \<Rightarrow> ((nat + key) \<rightharpoonup> nat) \<times> point list \<Rightarrow>
   error + (((nat + key) \<rightharpoonup> nat) \<times> point list)" where
  "merge_first_pass iv st =
     (case iv of (i, v) \<Rightarrow> case st of (vert_map, unique_verts) \<Rightarrow>
        (let key = key_of v
         in if vert_map (Inr key) = None then
              Inr (vert_map(Inl i \<mapsto> length unique_verts), unique_verts @ [v])
            else
              bind_result (py_lookup vert_map (Inr key)) (\<lambda>k.
                Inr (vert_map(Inl i \<mapsto> k), unique_verts))))"

text \<open>The second loop, lines 160-165.\<close>

definition merge_second_pass ::
  "point list \<Rightarrow> nat \<Rightarrow> (key \<rightharpoonup> nat) \<times> point list \<Rightarrow> error + ((key \<rightharpoonup> nat) \<times> point list)" where
  "merge_second_pass verts i st =
     (case st of (final_map, unique_verts) \<Rightarrow>
        bind_result (py_index verts i) (\<lambda>v.
          let key = key_of v
          in if final_map key = None then
               bind_result (py_index verts i) (\<lambda>v'.
                 Inr (final_map(key \<mapsto> length unique_verts), unique_verts @ [v']))
             else Inr (final_map, unique_verts)))"

text \<open>The face loop, lines 178-186.\<close>

definition remap_face ::
  "point list \<Rightarrow> (key \<rightharpoonup> nat) \<Rightarrow> face \<Rightarrow> face list \<Rightarrow> error + face list" where
  "remap_face verts index_map face new_faces =
     (case face of (f0, f1, f2) \<Rightarrow>
        bind_result (py_index verts f0) (\<lambda>p0.
        bind_result (py_index verts f1) (\<lambda>p1.
        bind_result (py_index verts f2) (\<lambda>p2.
        bind_result (py_lookup index_map (key_of p0)) (\<lambda>n0.
        bind_result (py_lookup index_map (key_of p1)) (\<lambda>n1.
        bind_result (py_lookup index_map (key_of p2)) (\<lambda>n2.
          if n0 \<noteq> n1 \<and> n1 \<noteq> n2 \<and> n0 \<noteq> n2 then Inr (new_faces @ [(n0, n1, n2)])
          else Inr new_faces)))))))"

definition merge_duplicates ::
  "point list \<Rightarrow> face list \<Rightarrow> error + (point list \<times> face list)" where
  "merge_duplicates verts faces =
     bind_result (for_each merge_first_pass (enumerate 0 verts) (Map.empty, []))
       (\<lambda>(vert_map, unique_verts1).
     bind_result (for_each (merge_second_pass verts) [0..<length verts] (Map.empty, unique_verts1))
       (\<lambda>(final_map, unique_verts2).
     bind_result (for_each (\<lambda>v st. Inr (register_vertex v st)) verts ([], Map.empty))
       (\<lambda>(unique_verts, index_map).
     bind_result (for_each (remap_face verts index_map) faces [])
       (\<lambda>new_faces. Inr (unique_verts, new_faces)))))"

section \<open>The whole mesh\<close>





section \<open>Auxiliary functions for the statements\<close>

text \<open>
  The functions of this section are not part of the program. They describe, without
  state and without exceptions, what its loops compute.

  \<open>dedup_into acc vs\<close> appends to \<open>acc\<close> every vertex of \<open>vs\<close> whose key has not
  occurred before, in order; \<open>position_of k vs\<close> is the index of the first vertex of
  \<open>vs\<close> with key \<open>k\<close>; \<open>index_map_of vs\<close> is the dictionary from each key of \<open>vs\<close> to
  that index.
\<close>

fun dedup_into :: "point list \<Rightarrow> point list \<Rightarrow> point list" where
  "dedup_into acc [] = acc"
| "dedup_into acc (v # vs) =
     (if key_of v \<in> set (map key_of acc) then dedup_into acc vs else dedup_into (acc @ [v]) vs)"

fun position_of :: "key \<Rightarrow> point list \<Rightarrow> nat" where
  "position_of k [] = 0"
| "position_of k (v # vs) = (if key_of v = k then 0 else Suc (position_of k vs))"

definition index_map_of :: "point list \<Rightarrow> key \<rightharpoonup> nat" where
  "index_map_of vs = (\<lambda>k. if k \<in> set (map key_of vs) then Some (position_of k vs) else None)"

text \<open>
  The grid of one subdivision: the sample at grid position \<open>(i, j)\<close>, the samples of
  row \<open>i\<close> and of the whole grid in the order the loops visit them, and the grid of
  local indices that results when the vertex list is \<open>verts\<close>.
\<close>

definition barycentric_sample ::
  "real \<Rightarrow> point \<Rightarrow> point \<Rightarrow> point \<Rightarrow> nat \<Rightarrow> nat \<Rightarrow> nat \<Rightarrow> point" where
  "barycentric_sample radius v0 v1 v2 freq i j =
     (let a = real i / real freq; b = real j / real freq; c = 1 - a - b
      in projected radius
           (a * fst v0 + b * fst v1 + c * fst v2,
            a * fst (snd v0) + b * fst (snd v1) + c * fst (snd v2),
            a * snd (snd v0) + b * snd (snd v1) + c * snd (snd v2)))"

definition row_samples :: "real \<Rightarrow> point \<Rightarrow> point \<Rightarrow> point \<Rightarrow> nat \<Rightarrow> nat \<Rightarrow> point list" where
  "row_samples radius v0 v1 v2 freq i =
     map (barycentric_sample radius v0 v1 v2 freq i) [0..<freq + 1 - i]"

definition grid_samples :: "real \<Rightarrow> point \<Rightarrow> point \<Rightarrow> point \<Rightarrow> nat \<Rightarrow> point list" where
  "grid_samples radius v0 v1 v2 freq =
     concat (map (row_samples radius v0 v1 v2 freq) [0..<freq + 1])"

definition local_grid ::
  "real \<Rightarrow> point \<Rightarrow> point \<Rightarrow> point \<Rightarrow> nat \<Rightarrow> point list \<Rightarrow> nat list list" where
  "local_grid radius v0 v1 v2 freq verts =
     map (\<lambda>i. map (\<lambda>j. position_of (key_of (barycentric_sample radius v0 v1 v2 freq i j)) verts)
                [0..<freq + 1 - i])
         [0..<freq + 1]"

text \<open>The faces of one grid cell and of the whole grid, in the order of the face loop.\<close>

definition upward :: "nat list list \<Rightarrow> nat \<Rightarrow> nat \<Rightarrow> face" where
  "upward grid i j = (grid ! i ! j, grid ! (i + 1) ! j, grid ! i ! (j + 1))"

definition downward :: "nat list list \<Rightarrow> nat \<Rightarrow> nat \<Rightarrow> face" where
  "downward grid i j = (grid ! (i + 1) ! j, grid ! (i + 1) ! (j + 1), grid ! i ! (j + 1))"

definition cell_faces :: "nat list list \<Rightarrow> nat \<Rightarrow> nat \<Rightarrow> nat \<Rightarrow> face list" where
  "cell_faces grid freq i j =
     (if j < freq - i - 1 then [upward grid i j, downward grid i j] else [upward grid i j])"

definition grid_faces :: "nat list list \<Rightarrow> nat \<Rightarrow> face list" where
  "grid_faces grid freq =
     concat (map (\<lambda>i. concat (map (cell_faces grid freq i) [0..<freq - i])) [0..<freq])"

text \<open>The shape of the triangular grid: row \<open>i\<close> has \<open>freq + 1 - i\<close> entries.\<close>

definition grid_shape :: "nat list list \<Rightarrow> nat \<Rightarrow> bool" where
  "grid_shape grid freq \<longleftrightarrow>
     length grid = freq + 1 \<and> (\<forall>i \<le> freq. length (grid ! i) = freq + 1 - i)"

text \<open>
  The merge: a face whose indices are all below \<open>n\<close>; a face whose indices are pairwise
  distinct; the index that input vertex \<open>i\<close> has after the merge; the faces after the
  merge.
\<close>

definition face_within :: "nat \<Rightarrow> face \<Rightarrow> bool" where
  "face_within n f = (case f of (a, b, c) \<Rightarrow> a < n \<and> b < n \<and> c < n)"

definition nondegenerate :: "face \<Rightarrow> bool" where
  "nondegenerate f = (case f of (a, b, c) \<Rightarrow> a \<noteq> b \<and> b \<noteq> c \<and> a \<noteq> c)"

definition merged_index :: "point list \<Rightarrow> nat \<Rightarrow> nat" where
  "merged_index verts i = position_of (key_of (verts ! i)) (dedup_into [] verts)"

definition remapped_face :: "point list \<Rightarrow> face \<Rightarrow> face" where
  "remapped_face verts f =
     (case f of (a, b, c) \<Rightarrow> (merged_index verts a, merged_index verts b, merged_index verts c))"

definition merged_faces :: "point list \<Rightarrow> face list \<Rightarrow> face list" where
  "merged_faces verts faces = filter nondegenerate (map (remapped_face verts) faces)"

section \<open>The merge as the specification words it\<close>

text \<open>
  One pass over the vertices keeps a dictionary from key to merged index: a key seen for
  the first time gets the next output index and its vertex is copied to the output, a key
  seen before reuses its index. The pass returns the output vertices and, for every input
  vertex, its merged index. Then every face has its three indices replaced by the merged
  ones, and a face whose merged indices are not pairwise distinct is discarded.
\<close>

fun merge_assign ::
  "point list \<Rightarrow> (key \<rightharpoonup> nat) \<Rightarrow> point list \<Rightarrow> point list \<times> nat list" where
  "merge_assign [] seen out = (out, [])"
| "merge_assign (v # vs) seen out =
     (case seen (key_of v) of
        Some k \<Rightarrow> (case merge_assign vs seen out of (out', ks) \<Rightarrow> (out', k # ks))
      | None \<Rightarrow>
          (case merge_assign vs (seen(key_of v \<mapsto> length out)) (out @ [v]) of
             (out', ks) \<Rightarrow> (out', length out # ks)))"

definition merge_spec :: "point list \<Rightarrow> face list \<Rightarrow> point list \<times> face list" where
  "merge_spec verts faces =
     (case merge_assign verts Map.empty [] of
        (merged, idx) \<Rightarrow>
          (merged,
           filter (\<lambda>(a, b, c). a \<noteq> b \<and> b \<noteq> c \<and> a \<noteq> c)
             (map (\<lambda>(a, b, c). (idx ! a, idx ! b, idx ! c)) faces)))"

section \<open>Basic facts\<close>

lemma bind_result_Inr [simp]: "bind_result (Inr x) f = f x"
  by (simp add: bind_result_def)

lemma bind_result_Inl [simp]: "bind_result (Inl e) f = Inl e"
  by (simp add: bind_result_def)

lemma bind_result_eq_Inr:
  "bind_result m f = Inr y \<longleftrightarrow> (\<exists>x. m = Inr x \<and> f x = Inr y)"
  by (cases m) simp_all

lemma sum_squares_nonneg: "0 \<le> x * x + y * y + z * (z::real)"
  by simp

lemma normalize_and_scale_projected:
  "normalize_and_scale radius v = Inr (projected radius v)"
proof -
  obtain x y z where v: "v = (x, y, z)" by (cases v)
  have "\<not> x * x + y * y + z * z < 0"
    using sum_squares_nonneg [of x y z] by (simp only: not_less)
  then show ?thesis
    by (simp add: v normalize_and_scale_def projected_def py_sqrt_def py_truediv_def Let_def)
qed

lemma position_of_append_in:
  "k \<in> set (map key_of vs) \<Longrightarrow> position_of k (vs @ ws) = position_of k vs"
  by (induction vs) auto

lemma position_of_append_notin:
  "k \<notin> set (map key_of vs) \<Longrightarrow> position_of k (vs @ ws) = length vs + position_of k ws"
  by (induction vs) auto

lemma position_of_less:
  "k \<in> set (map key_of vs) \<Longrightarrow> position_of k vs < length vs"
  by (induction vs) auto


lemma position_of_nth:
  "distinct (map key_of vs) \<Longrightarrow> i < length vs \<Longrightarrow> position_of (key_of (vs ! i)) vs = i"
proof (induction vs arbitrary: i)
  case Nil
  then show ?case by simp
next
  case (Cons v vs)
  show ?case
  proof (cases i)
    case 0
    then show ?thesis by simp
  next
    case (Suc j)
    with Cons.prems have j: "j < length vs" and d: "distinct (map key_of vs)"
      and nin: "key_of v \<notin> set (map key_of vs)" by auto
    from j have "key_of (vs ! j) \<in> set (map key_of vs)" by auto
    with nin have "key_of v \<noteq> key_of (vs ! j)" by metis
    with Cons.IH [OF d j] Suc show ?thesis by simp
  qed
qed

lemma index_map_of_Nil: "index_map_of [] = Map.empty"
  by (simp add: index_map_of_def)

lemma index_map_of_snoc:
  "key_of v \<notin> set (map key_of vs) \<Longrightarrow>
   index_map_of (vs @ [v]) = (index_map_of vs)(key_of v \<mapsto> length vs)"
  by (rule ext) (auto simp: index_map_of_def position_of_append_in position_of_append_notin)

lemma register_vertex_new:
  "key_of v \<notin> set (map key_of vs) \<Longrightarrow>
   register_vertex v (vs, index_map_of vs) = (vs @ [v], index_map_of (vs @ [v]))"
  by (simp add: register_vertex_def Let_def index_map_of_snoc) (simp add: index_map_of_def)

lemma register_vertex_old:
  "key_of v \<in> set (map key_of vs) \<Longrightarrow>
   register_vertex v (vs, index_map_of vs) = (vs, index_map_of vs)"
  by (simp add: register_vertex_def Let_def) (simp add: index_map_of_def)

lemma register_vertex_index_map:
  "register_vertex v (vs, index_map_of vs) =
     (dedup_into vs [v], index_map_of (dedup_into vs [v]))"
  by (cases "key_of v \<in> set (map key_of vs)")
     (simp_all add: register_vertex_new register_vertex_old)

lemma dedup_into_append: "dedup_into acc (xs @ ys) = dedup_into (dedup_into acc xs) ys"
  by (induction xs arbitrary: acc) simp_all

lemma dedup_into_prefix: "\<exists>ws. dedup_into acc vs = acc @ ws"
proof (induction vs arbitrary: acc)
  case Nil
  then show ?case by simp
next
  case (Cons v vs)
  from Cons.IH [of acc] obtain ws1 where 1: "dedup_into acc vs = acc @ ws1" by blast
  from Cons.IH [of "acc @ [v]"] obtain ws2 where 2: "dedup_into (acc @ [v]) vs = acc @ [v] @ ws2"
    by auto
  show ?case using 1 2 by simp
qed


lemma dedup_into_keys:
  "set (map key_of (dedup_into acc vs)) = set (map key_of acc) \<union> set (map key_of vs)"
  by (induction vs arbitrary: acc) auto

lemma dedup_into_distinct:
  "distinct (map key_of acc) \<Longrightarrow> distinct (map key_of (dedup_into acc vs))"
  by (induction vs arbitrary: acc) simp_all



lemma dedup_into_distinct_id:
  "distinct (map key_of (acc @ vs)) \<Longrightarrow> dedup_into acc vs = acc @ vs"
  by (induction vs arbitrary: acc) simp_all

lemma position_of_dedup_into:
  "k \<in> set (map key_of acc) \<Longrightarrow> position_of k (dedup_into acc vs) = position_of k acc"
  using dedup_into_prefix [of acc vs] by (auto simp: position_of_append_in)

lemma for_each_append:
  "for_each body (xs @ ys) s = bind_result (for_each body xs s) (for_each body ys)"
  by (induction xs arbitrary: s) (simp_all add: bind_result_def split: sum.splits)

lemma for_each_appending:
  "(\<And>x s. x \<in> set xs \<Longrightarrow> body x s = Inr (s @ g x)) \<Longrightarrow>
   for_each body xs s = Inr (s @ concat (map g xs))"
  by (induction xs arbitrary: s) simp_all

lemma for_each_pure:
  "for_each (\<lambda>x s. Inr (f x s)) xs s = Inr (fold f xs s)"
  by (induction xs arbitrary: s) simp_all

lemma py_index_in [simp]: "i < length xs \<Longrightarrow> py_index xs i = Inr (xs ! i)"
  by (simp add: py_index_def)

lemma py_index_out [simp]: "\<not> i < length xs \<Longrightarrow> py_index xs i = Inl IndexError"
  by (simp add: py_index_def)

lemma py_lookup_Some [simp]: "m k = Some v \<Longrightarrow> py_lookup m k = Inr v"
  by (simp add: py_lookup_def)

lemma py_lookup_None [simp]: "m k = None \<Longrightarrow> py_lookup m k = Inl KeyError"
  by (simp add: py_lookup_def)

lemma index_map_of_in:
  "k \<in> set (map key_of vs) \<Longrightarrow> index_map_of vs k = Some (position_of k vs)"
  by (simp add: index_map_of_def)

lemma grid_point_sample:
  "grid_point radius v0 v1 v2 freq i j = Inr (barycentric_sample radius v0 v1 v2 freq i j)"
  by (simp add: grid_point_def barycentric_weights_def barycentric_sample_def py_truediv_def
      normalize_and_scale_projected Let_def)

lemma key_in_dedup_single: "key_of v \<in> set (map key_of (dedup_into vs [v]))"
  by simp

lemma dedup_into_Cons: "dedup_into acc (v # vs) = dedup_into (dedup_into acc [v]) vs"
  by simp

lemma lookup_after_register:
  "py_lookup (index_map_of (dedup_into vs [v])) (key_of v) =
     Inr (position_of (key_of v) (dedup_into vs [v]))"
  by (rule py_lookup_Some) (rule index_map_of_in, rule key_in_dedup_single)

lemma add_grid_point_pure:
  "add_grid_point radius v0 v1 v2 freq i j (vs, index_map_of vs, row) =
     Inr (dedup_into vs [barycentric_sample radius v0 v1 v2 freq i j],
          index_map_of (dedup_into vs [barycentric_sample radius v0 v1 v2 freq i j]),
          row @ [position_of (key_of (barycentric_sample radius v0 v1 v2 freq i j))
                   (dedup_into vs [barycentric_sample radius v0 v1 v2 freq i j])])"
  unfolding add_grid_point_def
  by (simp only: prod.case grid_point_sample bind_result_Inr register_vertex_index_map
      lookup_after_register)

lemma position_of_dedup_into_map:
  "\<forall>x \<in> set xs. key_of (f x) \<in> set (map key_of acc) \<Longrightarrow>
   map (\<lambda>x. position_of (key_of (f x)) (dedup_into acc vs)) xs =
   map (\<lambda>x. position_of (key_of (f x)) acc) xs"
  by (simp add: position_of_dedup_into del: set_map)

lemma row_loop_pure:
  "for_each (add_grid_point radius v0 v1 v2 freq i) js (vs, index_map_of vs, row) =
     Inr (dedup_into vs (map (barycentric_sample radius v0 v1 v2 freq i) js),
          index_map_of (dedup_into vs (map (barycentric_sample radius v0 v1 v2 freq i) js)),
          row @ map (\<lambda>j. position_of (key_of (barycentric_sample radius v0 v1 v2 freq i j))
                            (dedup_into vs (map (barycentric_sample radius v0 v1 v2 freq i) js)))
                    js)"
proof (induction js arbitrary: vs row)
  case Nil
  then show ?case by simp
next
  case (Cons j js)
  let ?S = "barycentric_sample radius v0 v1 v2 freq i"
  let ?vs1 = "dedup_into vs [?S j]"
  let ?vs' = "dedup_into ?vs1 (map ?S js)"
  have pos: "position_of (key_of (?S j)) ?vs' = position_of (key_of (?S j)) ?vs1"
    by (rule position_of_dedup_into) (rule key_in_dedup_single)
  have eq: "dedup_into vs (?S j # map ?S js) = ?vs'"
    by simp
  have "for_each (add_grid_point radius v0 v1 v2 freq i) (j # js) (vs, index_map_of vs, row) =
        for_each (add_grid_point radius v0 v1 v2 freq i) js
          (?vs1, index_map_of ?vs1, row @ [position_of (key_of (?S j)) ?vs1])"
    by (simp only: for_each.simps add_grid_point_pure bind_result_Inr)
  also have "\<dots> = Inr (?vs', index_map_of ?vs',
      (row @ [position_of (key_of (?S j)) ?vs1]) @ map (\<lambda>j. position_of (key_of (?S j)) ?vs') js)"
    by (rule Cons.IH)
  finally show ?case
    by (simp only: list.map eq pos append_assoc append_Cons append_Nil)
qed


lemma row_samples_keys:
  "j \<in> set js \<Longrightarrow>
   key_of (barycentric_sample radius v0 v1 v2 freq i j) \<in>
     set (map key_of (dedup_into vs (map (barycentric_sample radius v0 v1 v2 freq i) js)))"
  by (simp add: dedup_into_keys del: set_map) simp

lemma build_row_pure:
  "build_row radius v0 v1 v2 freq i (vs, index_map_of vs, grid) =
     Inr (dedup_into vs (row_samples radius v0 v1 v2 freq i),
          index_map_of (dedup_into vs (row_samples radius v0 v1 v2 freq i)),
          grid @ [map (\<lambda>j. position_of (key_of (barycentric_sample radius v0 v1 v2 freq i j))
                            (dedup_into vs (row_samples radius v0 v1 v2 freq i)))
                    [0..<freq + 1 - i]])"
  unfolding build_row_def row_samples_def
  by (simp only: prod.case row_loop_pure bind_result_Inr append_Nil)

lemma grid_loop_pure:
  "for_each (build_row radius v0 v1 v2 freq) is (vs, index_map_of vs, grid) =
     Inr (dedup_into vs (concat (map (row_samples radius v0 v1 v2 freq) is)),
          index_map_of (dedup_into vs (concat (map (row_samples radius v0 v1 v2 freq) is))),
          grid @ map (\<lambda>i. map (\<lambda>j. position_of (key_of (barycentric_sample radius v0 v1 v2 freq i j))
                            (dedup_into vs (concat (map (row_samples radius v0 v1 v2 freq) is))))
                    [0..<freq + 1 - i]) is)"
proof (induction "is" arbitrary: vs grid)
  case Nil
  then show ?case by simp
next
  case (Cons i "is")
  let ?S = "barycentric_sample radius v0 v1 v2 freq"
  let ?R = "row_samples radius v0 v1 v2 freq"
  let ?vs1 = "dedup_into vs (?R i)"
  let ?vs' = "dedup_into ?vs1 (concat (map ?R is))"
  have eq: "dedup_into vs (concat (?R i # map ?R is)) = ?vs'"
    by (simp add: dedup_into_append)
  have row: "map (\<lambda>j. position_of (key_of (?S i j)) ?vs') [0..<freq + 1 - i] =
             map (\<lambda>j. position_of (key_of (?S i j)) ?vs1) [0..<freq + 1 - i]"
    unfolding row_samples_def
    by (rule position_of_dedup_into_map) (rule ballI, rule row_samples_keys)
  have "for_each (build_row radius v0 v1 v2 freq) (i # is) (vs, index_map_of vs, grid) =
        for_each (build_row radius v0 v1 v2 freq) is
          (?vs1, index_map_of ?vs1, grid @ [map (\<lambda>j. position_of (key_of (?S i j)) ?vs1) [0..<freq + 1 - i]])"
    by (simp only: for_each.simps build_row_pure bind_result_Inr)
  also have "\<dots> = Inr (?vs', index_map_of ?vs',
      (grid @ [map (\<lambda>j. position_of (key_of (?S i j)) ?vs1) [0..<freq + 1 - i]]) @
       map (\<lambda>i. map (\<lambda>j. position_of (key_of (?S i j)) ?vs') [0..<freq + 1 - i]) is)"
    by (rule Cons.IH)
  finally show ?case
    by (simp only: eq list.map row append_assoc append_Cons append_Nil)
qed

lemma build_grid_pure:
  "build_grid radius v0 v1 v2 freq =
     Inr (dedup_into [] (grid_samples radius v0 v1 v2 freq),
          index_map_of (dedup_into [] (grid_samples radius v0 v1 v2 freq)),
          local_grid radius v0 v1 v2 freq (dedup_into [] (grid_samples radius v0 v1 v2 freq)))"
  unfolding build_grid_def grid_samples_def local_grid_def
  using grid_loop_pure [of radius v0 v1 v2 freq "[0..<freq + 1]" "[]" "[]"]
  by (simp only: index_map_of_Nil append_Nil)

lemma grid_at_in:
  "i < length grid \<Longrightarrow> j < length (grid ! i) \<Longrightarrow> grid_at grid i j = Inr (grid ! i ! j)"
  by (simp add: grid_at_def)

lemma grid_at_shape:
  "grid_shape grid freq \<Longrightarrow> i \<le> freq \<Longrightarrow> j < freq + 1 - i \<Longrightarrow>
   grid_at grid i j = Inr (grid ! i ! j)"
  by (rule grid_at_in) (simp_all add: grid_shape_def)

lemma emit_cell_pure:
  assumes "grid_shape grid freq" "i < freq" "j < freq - i"
  shows "emit_cell grid freq i j faces = Inr (faces @ cell_faces grid freq i j)"
proof -
  have a: "grid_at grid i j = Inr (grid ! i ! j)"
    using assms by (intro grid_at_shape [of grid freq]) simp_all
  have b: "grid_at grid (Suc i) j = Inr (grid ! (Suc i) ! j)"
    using assms by (intro grid_at_shape [of grid freq]) simp_all
  have c: "grid_at grid i (Suc j) = Inr (grid ! i ! (Suc j))"
    using assms by (intro grid_at_shape [of grid freq]) simp_all
  have d: "j < freq - Suc i \<Longrightarrow> grid_at grid (Suc i) (Suc j) = Inr (grid ! (Suc i) ! (Suc j))"
    using assms by (intro grid_at_shape [of grid freq]) simp_all
  show ?thesis
    by (simp add: emit_cell_def a b c d cell_faces_def upward_def downward_def Let_def)
qed

lemma build_faces_pure:
  assumes "grid_shape grid freq"
  shows "build_faces grid freq = Inr (grid_faces grid freq)"
proof -
  have inner: "for_each (emit_cell grid freq i) [0..<freq - i] faces =
      Inr (faces @ concat (map (cell_faces grid freq i) [0..<freq - i]))"
    if "i \<in> set [0..<freq]" for i faces
    using that assms by (intro for_each_appending emit_cell_pure) simp_all
  have "for_each (\<lambda>i. for_each (emit_cell grid freq i) [0..<freq - i]) [0..<freq] [] =
      Inr ([] @ concat (map (\<lambda>i. concat (map (cell_faces grid freq i) [0..<freq - i])) [0..<freq]))"
    by (rule for_each_appending) (rule inner)
  then show ?thesis
    by (simp add: build_faces_def grid_faces_def)
qed

lemma local_grid_shape: "grid_shape (local_grid radius v0 v1 v2 freq verts) freq"
  by (simp add: grid_shape_def local_grid_def nth_map_upt del: upt_Suc)

lemma subdivide_triangle_pure:
  "subdivide_triangle radius v0 v1 v2 freq =
     Inr (dedup_into [] (grid_samples radius v0 v1 v2 freq),
          grid_faces (local_grid radius v0 v1 v2 freq
            (dedup_into [] (grid_samples radius v0 v1 v2 freq))) freq)"
  by (simp add: subdivide_triangle_def build_grid_pure build_faces_pure local_grid_shape)

lemma length_concat_upt:
  "length (concat (map g [0..<n])) = (\<Sum>k<n. length (g k))"
  by (induction n) simp_all

lemma length_cell_row:
  "i < freq \<Longrightarrow> length (concat (map (cell_faces grid freq i) [0..<freq - i])) = 2 * (freq - i) - 1"
proof -
  assume "i < freq"
  then obtain n where n: "freq - i = Suc n" by (cases "freq - i") simp_all
  have "(\<Sum>k<m. length (cell_faces grid freq i k)) = 2 * m" if "m \<le> n" for m
    using that by (induction m) (simp_all add: cell_faces_def n)
  then have "(\<Sum>k<Suc n. length (cell_faces grid freq i k)) = 2 * n + 1"
    by (simp add: cell_faces_def n)
  then show ?thesis
    by (simp add: length_concat_upt n)
qed

lemma sum_odd: "(\<Sum>i<f. 2 * (f - i) - 1) = f * (f::nat)"
proof -
  have "(\<Sum>i<f. 2 * (f - i) - 1) = (\<Sum>i<f. 2 * (f - Suc i) + 1)"
    by (rule sum.cong) auto
  also have "\<dots> = (\<Sum>i<f. 2 * i + 1)"
    by (rule sum.nat_diff_reindex)
  also have "\<dots> = f * f"
    by (induction f) simp_all
  finally show ?thesis .
qed

lemma length_grid_faces: "length (grid_faces grid freq) = freq * freq"
proof -
  have "length (grid_faces grid freq) =
      (\<Sum>i<freq. length (concat (map (cell_faces grid freq i) [0..<freq - i])))"
    by (simp add: grid_faces_def length_concat_upt)
  also have "\<dots> = (\<Sum>i<freq. 2 * (freq - i) - 1)"
    by (rule sum.cong) (simp_all add: length_cell_row)
  also have "\<dots> = freq * freq"
    by (rule sum_odd)
  finally show ?thesis .
qed


lemma for_each_total:
  "(\<And>x s. x \<in> set xs \<Longrightarrow> \<exists>s'. body x s = Inr s') \<Longrightarrow> \<exists>s'. for_each body xs s = Inr s'"
proof (induction xs arbitrary: s)
  case Nil
  then show ?case by simp
next
  case (Cons x xs)
  from Cons.prems [of x s] obtain s1 where s1: "body x s = Inr s1" by auto
  from Cons.IH [of s1] Cons.prems obtain s' where "for_each body xs s1 = Inr s'" by auto
  with s1 show ?case by simp
qed

lemma merge_first_pass_total: "\<exists>s'. merge_first_pass iv s = Inr s'"
  by (cases iv; cases s) (auto simp: merge_first_pass_def Let_def)

lemma merge_second_pass_total: "i < length verts \<Longrightarrow> \<exists>s'. merge_second_pass verts i s = Inr s'"
  by (cases s) (auto simp: merge_second_pass_def Let_def)

lemma register_loop_pure:
  "for_each (\<lambda>v st. Inr (register_vertex v st)) vs (acc, index_map_of acc) =
     Inr (dedup_into acc vs, index_map_of (dedup_into acc vs))"
proof (induction vs arbitrary: acc)
  case Nil
  then show ?case by simp
next
  case (Cons v vs)
  have "for_each (\<lambda>v st. Inr (register_vertex v st)) (v # vs) (acc, index_map_of acc) =
        for_each (\<lambda>v st. Inr (register_vertex v st)) vs
          (dedup_into acc [v], index_map_of (dedup_into acc [v]))"
    by (simp only: for_each.simps register_vertex_index_map bind_result_Inr)
  also have "\<dots> = Inr (dedup_into (dedup_into acc [v]) vs,
      index_map_of (dedup_into (dedup_into acc [v]) vs))"
    by (rule Cons.IH)
  finally show ?case by simp
qed

lemma key_nth_in_dedup:
  "i < length verts \<Longrightarrow> key_of (verts ! i) \<in> set (map key_of (dedup_into [] verts))"
  by (simp add: dedup_into_keys del: set_map) simp

lemma lookup_merged_index:
  "i < length verts \<Longrightarrow>
   py_lookup (index_map_of (dedup_into [] verts)) (key_of (verts ! i)) = Inr (merged_index verts i)"
  unfolding merged_index_def
  by (rule py_lookup_Some) (rule index_map_of_in, rule key_nth_in_dedup)

lemma remap_face_pure:
  "face_within (length verts) f \<Longrightarrow>
   remap_face verts (index_map_of (dedup_into [] verts)) f new_faces =
     Inr (new_faces @ filter nondegenerate [remapped_face verts f])"
  by (cases f)
     (simp add: face_within_def remap_face_def lookup_merged_index remapped_face_def
       nondegenerate_def)

lemma remap_face_out_of_range:
  "\<not> face_within (length verts) f \<Longrightarrow> remap_face verts index_map f new_faces = Inl IndexError"
  by (cases f) (auto simp: face_within_def remap_face_def py_index_def)

lemma remap_loop_pure:
  assumes "list_all (face_within (length verts)) faces"
  shows "for_each (remap_face verts (index_map_of (dedup_into [] verts))) faces new_faces =
     Inr (new_faces @ merged_faces verts faces)"
proof -
  have "for_each (remap_face verts (index_map_of (dedup_into [] verts))) faces new_faces =
      Inr (new_faces @ concat (map (\<lambda>f. filter nondegenerate [remapped_face verts f]) faces))"
    using assms by (intro for_each_appending remap_face_pure) (simp add: list_all_iff)
  moreover have "concat (map (\<lambda>f. filter nondegenerate [remapped_face verts f]) faces) =
      merged_faces verts faces"
    unfolding merged_faces_def by (induction faces) simp_all
  ultimately show ?thesis by simp
qed

lemma merge_duplicates_pure:
  assumes "list_all (face_within (length verts)) faces"
  shows "merge_duplicates verts faces = Inr (dedup_into [] verts, merged_faces verts faces)"
proof -
  obtain vm u1 where p1: "for_each merge_first_pass (enumerate 0 verts) (Map.empty, []) = Inr (vm, u1)"
    using for_each_total [of "enumerate 0 verts" merge_first_pass "(Map.empty, [])"]
      merge_first_pass_total by (metis surj_pair)
  obtain fm u2 where p2: "for_each (merge_second_pass verts) [0..<length verts] (Map.empty, u1) = Inr (fm, u2)"
    using for_each_total [of "[0..<length verts]" "merge_second_pass verts" "(Map.empty, u1)"]
      merge_second_pass_total by (metis atLeastLessThan_iff set_upt surj_pair)
  have p3: "for_each (\<lambda>v st. Inr (register_vertex v st)) verts ([], Map.empty) =
      Inr (dedup_into [] verts, index_map_of (dedup_into [] verts))"
    using register_loop_pure [of verts "[]"] by (simp only: index_map_of_Nil)
  show ?thesis
    by (simp add: merge_duplicates_def p1 p2 p3 remap_loop_pure [OF assms])
qed

lemma remap_loop_fails:
  assumes "\<not> list_all (face_within (length verts)) faces"
  shows "for_each (remap_face verts (index_map_of (dedup_into [] verts))) faces new_faces = Inl IndexError"
  using assms
proof (induction faces arbitrary: new_faces)
  case Nil
  then show ?case by simp
next
  case (Cons f faces)
  show ?case
  proof (cases "face_within (length verts) f")
    case True
    with Cons.prems have "\<not> list_all (face_within (length verts)) faces" by simp
    from Cons.IH [OF this] True show ?thesis by (simp add: remap_face_pure)
  next
    case False
    then show ?thesis by (simp add: remap_face_out_of_range)
  qed
qed


lemma merge_assign_pure:
  "merge_assign vs (index_map_of out) out =
     (dedup_into out vs, map (\<lambda>v. position_of (key_of v) (dedup_into out vs)) vs)"
proof (induction vs arbitrary: out)
  case Nil
  then show ?case by simp
next
  case (Cons v vs)
  show ?case
  proof (cases "key_of v \<in> set (map key_of out)")
    case True
    then have seen: "index_map_of out (key_of v) = Some (position_of (key_of v) out)"
      by (rule index_map_of_in)
    have pos: "position_of (key_of v) (dedup_into out vs) = position_of (key_of v) out"
      using True by (rule position_of_dedup_into)
    from True have eq: "dedup_into out (v # vs) = dedup_into out vs" by simp
    show ?thesis
      by (simp only: merge_assign.simps seen option.case Cons.IH prod.case eq list.map pos)
  next
    case False
    then have seen: "index_map_of out (key_of v) = None"
      by (simp add: index_map_of_def)
    have upd: "(index_map_of out)(key_of v \<mapsto> length out) = index_map_of (out @ [v])"
      using False by (rule index_map_of_snoc [symmetric])
    have "key_of v \<in> set (map key_of (out @ [v]))" by simp
    then have "position_of (key_of v) (dedup_into (out @ [v]) vs) = position_of (key_of v) (out @ [v])"
      by (rule position_of_dedup_into)
    also have "\<dots> = length out"
      using False by (simp add: position_of_append_notin)
    finally have pos: "position_of (key_of v) (dedup_into (out @ [v]) vs) = length out" .
    from False have eq: "dedup_into out (v # vs) = dedup_into (out @ [v]) vs" by simp
    show ?thesis
      by (simp only: merge_assign.simps seen option.case upd Cons.IH prod.case eq list.map pos)
  qed
qed

lemma merge_spec_pure:
  assumes "list_all (face_within (length verts)) faces"
  shows "merge_spec verts faces = (dedup_into [] verts, merged_faces verts faces)"
proof -
  let ?U = "dedup_into [] verts"
  let ?idx = "map (\<lambda>v. position_of (key_of v) ?U) verts"
  have assign: "merge_assign verts Map.empty [] = (?U, ?idx)"
    using merge_assign_pure [of verts "[]"] by (simp only: index_map_of_Nil)
  have meq: "map (\<lambda>(a, b, c). (?idx ! a, ?idx ! b, ?idx ! c)) faces = map (remapped_face verts) faces"
    using assms
    by (intro map_cong refl)
       (auto simp: list_all_iff face_within_def remapped_face_def merged_index_def)
  have nd: "(\<lambda>(a, b, c). a \<noteq> b \<and> b \<noteq> c \<and> a \<noteq> c) = nondegenerate"
    by (rule ext) (simp add: nondegenerate_def)
  show ?thesis
    unfolding merge_spec_def assign prod.case merged_faces_def nd meq by (rule refl)
qed




















lemma merged_index_less:
  "i < length verts \<Longrightarrow> merged_index verts i < length (dedup_into [] verts)"
  unfolding merged_index_def by (rule position_of_less) (rule key_nth_in_dedup)

lemma merged_faces_nondegenerate: "list_all nondegenerate (merged_faces verts faces)"
  by (simp add: merged_faces_def list_all_iff)

lemma merged_faces_within:
  "list_all (face_within (length verts)) faces \<Longrightarrow>
   list_all (face_within (length (dedup_into [] verts))) (merged_faces verts faces)"
  by (auto simp: merged_faces_def list_all_iff face_within_def remapped_face_def
      merged_index_less)


lemma round_half_even_small: "\<bar>t\<bar> < 1 / 2 \<Longrightarrow> round_half_even t = 0"
proof (cases "0 \<le> t")
  case True
  assume "\<bar>t\<bar> < 1 / 2"
  with True have "\<lfloor>t\<rfloor> = 0" by (simp add: floor_eq_iff)
  with \<open>\<bar>t\<bar> < 1 / 2\<close> True show ?thesis by (simp add: round_half_even_def)
next
  case False
  assume "\<bar>t\<bar> < 1 / 2"
  with False have "\<lfloor>t\<rfloor> = - 1" by (simp add: floor_eq_iff)
  with \<open>\<bar>t\<bar> < 1 / 2\<close> False show ?thesis by (simp add: round_half_even_def)
qed

lemma py_round_small: "\<bar>y\<bar> \<le> 1 / 10 ^ 9 \<Longrightarrow> py_round y 8 = 0"
proof -
  assume "\<bar>y\<bar> \<le> 1 / 10 ^ 9"
  then have "\<bar>y * 10 ^ 8\<bar> < 1 / 2" by (simp add: abs_mult)
  then show ?thesis by (simp add: py_round_def round_half_even_small)
qed








section \<open>Concrete keys\<close>


lemma py_round_of_int: "py_round (of_int n) 8 = of_int n"
proof -
  have "round_half_even (of_int (n * 10 ^ 8)) = n * 10 ^ 8"
    by (simp only: round_half_even_def floor_of_int Let_def) simp
  then show ?thesis by (simp add: py_round_def)
qed

lemma py_round_0 [simp]: "py_round 0 8 = 0"
  using py_round_of_int [of 0] by simp

lemma py_round_1 [simp]: "py_round 1 8 = 1"
  using py_round_of_int [of 1] by simp

lemma py_round_tiny [simp]: "py_round (1 / 1000000000) 8 = 0"
  by (rule py_round_small) simp

section \<open>Normalize and scale never raises\<close>



section \<open>The merge step\<close>

text \<open>
  C4: the merge step does what the specification describes. Whenever every face index
  is a valid index into the vertex list, \<open>merge_duplicates\<close> returns exactly the result
  of \<open>merge_spec\<close>: each vertex is keyed by its coordinates rounded to 8 decimal
  digits, the first occurrence of a key gets the next output index and its vertex is
  copied to the output, later occurrences reuse that index, every face has its three
  indices replaced by the merged indices, and a face whose merged indices are not
  pairwise distinct is discarded.
\<close>

theorem merge_duplicates_refines_spec:
  assumes "list_all (face_within (length verts)) faces"
  shows "merge_duplicates verts faces = Inr (merge_spec verts faces)"
  by (simp only: merge_duplicates_pure [OF assms] merge_spec_pure [OF assms])

theorem merge_duplicates_refines_spec_witness:
  "merge_duplicates [(0, 0, 0), (1, 0, 0), (1 / 10 ^ 9, 0, 0), (0, 1, 0)]
                    [(0, 1, 3), (2, 1, 3), (0, 2, 1)] =
     Inr ([(0, 0, 0), (1, 0, 0), (0, 1, 0)], [(0, 1, 2), (0, 1, 2)])"
proof -
  have "list_all (face_within (length [(0, 0, 0), (1, 0, 0), (1 / 10 ^ 9, 0, 0), (0::real, 1::real, 0::real)]))
          [(0, 1, 3), (2, 1, 3), (0, 2, 1)]"
    by (simp add: face_within_def)
  from merge_duplicates_refines_spec [OF this] show ?thesis
    by (simp add: merge_spec_def key_of_def)
qed

section \<open>Idempotence of the merge\<close>

lemma merge_duplicates_out_of_range:
  assumes "\<not> list_all (face_within (length verts)) faces"
  shows "merge_duplicates verts faces = Inl IndexError"
proof -
  obtain vm u1 where p1: "for_each merge_first_pass (enumerate 0 verts) (Map.empty, []) = Inr (vm, u1)"
    using for_each_total [of "enumerate 0 verts" merge_first_pass "(Map.empty, [])"]
      merge_first_pass_total by (metis surj_pair)
  obtain fm u2 where p2: "for_each (merge_second_pass verts) [0..<length verts] (Map.empty, u1) = Inr (fm, u2)"
    using for_each_total [of "[0..<length verts]" "merge_second_pass verts" "(Map.empty, u1)"]
      merge_second_pass_total by (metis atLeastLessThan_iff set_upt surj_pair)
  have p3: "for_each (\<lambda>v st. Inr (register_vertex v st)) verts ([], Map.empty) =
      Inr (dedup_into [] verts, index_map_of (dedup_into [] verts))"
    using register_loop_pure [of verts "[]"] by (simp only: index_map_of_Nil)
  show ?thesis
    by (simp add: merge_duplicates_def p1 p2 p3 remap_loop_fails [OF assms])
qed

lemma merged_index_distinct:
  "distinct (map key_of verts) \<Longrightarrow> i < length verts \<Longrightarrow> merged_index verts i = i"
  using dedup_into_distinct_id [of "[]" verts]
  by (simp add: merged_index_def position_of_nth)

lemma merged_faces_fixed:
  assumes "distinct (map key_of verts)" "list_all (face_within (length verts)) faces"
    "list_all nondegenerate faces"
  shows "merged_faces verts faces = faces"
proof -
  have "remapped_face verts f = f" if "f \<in> set faces" for f
    using that assms(1,2)
    by (cases f) (auto simp: list_all_iff face_within_def remapped_face_def merged_index_distinct)
  then have "map (remapped_face verts) faces = faces"
    by (simp add: map_idI)
  then show ?thesis
    using assms(3) by (simp add: merged_faces_def list_all_iff)
qed

text \<open>
  C8: the merge is idempotent. Whenever \<open>merge_duplicates\<close> returns a pair of merged
  vertices and faces, applying it to that pair returns the very same pair.
\<close>

theorem merge_duplicates_idempotent:
  assumes "merge_duplicates verts faces = Inr (merged_verts, new_faces)"
  shows "merge_duplicates merged_verts new_faces = Inr (merged_verts, new_faces)"
proof -
  have range: "list_all (face_within (length verts)) faces"
  proof (rule ccontr)
    assume "\<not> list_all (face_within (length verts)) faces"
    from merge_duplicates_out_of_range [OF this] assms show False by simp
  qed
  from merge_duplicates_pure [OF range] assms
  have mv: "merged_verts = dedup_into [] verts" and nf: "new_faces = merged_faces verts faces"
    by simp_all
  have d: "distinct (map key_of merged_verts)"
    unfolding mv by (rule dedup_into_distinct) simp
  have w: "list_all (face_within (length merged_verts)) new_faces"
    unfolding mv nf by (rule merged_faces_within [OF range])
  have n: "list_all nondegenerate new_faces"
    unfolding nf by (rule merged_faces_nondegenerate)
  have "dedup_into [] merged_verts = merged_verts"
    using dedup_into_distinct_id [of "[]" merged_verts] d by simp
  then show ?thesis
    by (simp only: merge_duplicates_pure [OF w] merged_faces_fixed [OF d w n])
qed

theorem merge_duplicates_idempotent_witness:
  "merge_duplicates [(1, 0, 0), (0, 1, 0), (1, 1 / 10 ^ 9, 0), (0, 0, 1)]
                    [(0, 1, 3), (0, 2, 3), (2, 1, 3)] =
     Inr ([(1, 0, 0), (0, 1, 0), (0, 0, 1)], [(0, 1, 2), (0, 1, 2)]) \<and>
   merge_duplicates [(1, 0, 0), (0, 1, 0), (0, 0, 1)] [(0, 1, 2), (0, 1, 2)] =
     Inr ([(1, 0, 0), (0, 1, 0), (0, 0, 1)], [(0, 1, 2), (0, 1, 2)])"
proof -
  have "list_all (face_within (length [(1, 0, 0), (0, 1, 0), (1, 1 / 10 ^ 9, 0), (0::real, 0::real, 1::real)]))
          [(0, 1, 3), (0, 2, 3), (2, 1, 3)]"
    by (simp add: face_within_def)
  from merge_duplicates_pure [OF this]
  have first: "merge_duplicates [(1, 0, 0), (0, 1, 0), (1, 1 / 10 ^ 9, 0), (0, 0, 1)]
                    [(0, 1, 3), (0, 2, 3), (2, 1, 3)] =
     Inr ([(1, 0, 0), (0, 1, 0), (0, 0, 1)], [(0, 1, 2), (0, 1, 2)])"
    by (simp add: merged_faces_def remapped_face_def merged_index_def nondegenerate_def key_of_def)
  from first merge_duplicates_idempotent [OF first] show ?thesis by (rule conjI)
qed

section \<open>Faces of a subdivision and of the whole mesh\<close>

lemma grid_faces_explicit:
  "grid_faces grid freq =
     concat (map (\<lambda>i. concat (map (\<lambda>j.
         (grid ! i ! j, grid ! (i + 1) ! j, grid ! i ! (j + 1)) #
         (if j < freq - i - 1
          then [(grid ! (i + 1) ! j, grid ! (i + 1) ! (j + 1), grid ! i ! (j + 1))] else []))
       [0..<freq - i])) [0..<freq])"
  unfolding grid_faces_def cell_faces_def upward_def downward_def
  by (intro arg_cong [where f = concat] map_cong refl) simp

text \<open>
  C6: for every frequency of at least 1, subdividing one triangle builds a grid with
  rows \<open>0 \<dots> freq\<close>, row \<open>i\<close> having \<open>freq + 1 - i\<close> entries, and emits the faces
  obtained by walking it: for each row \<open>i\<close> in \<open>[0, freq - 1]\<close> and column \<open>j\<close> in
  \<open>[0, freq - i - 1]\<close> the upward triangle \<open>(grid(i,j), grid(i+1,j), grid(i,j+1))\<close>,
  followed by the downward triangle \<open>(grid(i+1,j), grid(i+1,j+1), grid(i,j+1))\<close>
  whenever \<open>j < freq - i - 1\<close>. These are exactly \<open>freq\<^sup>2\<close> faces.
\<close>

theorem subdivide_triangle_faces:
  assumes "1 \<le> freq"
  shows "\<exists>verts vert_map grid.
     build_grid radius v0 v1 v2 freq = Inr (verts, vert_map, grid) \<and>
     length grid = freq + 1 \<and> (\<forall>i \<le> freq. length (grid ! i) = freq + 1 - i) \<and>
     subdivide_triangle radius v0 v1 v2 freq =
       Inr (verts,
            concat (map (\<lambda>i. concat (map (\<lambda>j.
                (grid ! i ! j, grid ! (i + 1) ! j, grid ! i ! (j + 1)) #
                (if j < freq - i - 1
                 then [(grid ! (i + 1) ! j, grid ! (i + 1) ! (j + 1), grid ! i ! (j + 1))] else []))
              [0..<freq - i])) [0..<freq])) \<and>
     length (concat (map (\<lambda>i. concat (map (\<lambda>j.
                (grid ! i ! j, grid ! (i + 1) ! j, grid ! i ! (j + 1)) #
                (if j < freq - i - 1
                 then [(grid ! (i + 1) ! j, grid ! (i + 1) ! (j + 1), grid ! i ! (j + 1))] else []))
              [0..<freq - i])) [0..<freq])) = freq\<^sup>2"
proof -
  let ?U = "dedup_into [] (grid_samples radius v0 v1 v2 freq)"
  let ?G = "local_grid radius v0 v1 v2 freq ?U"
  have shape: "length ?G = freq + 1 \<and> (\<forall>i \<le> freq. length (?G ! i) = freq + 1 - i)"
    using local_grid_shape [of radius v0 v1 v2 freq ?U] unfolding grid_shape_def .
  have len: "length (grid_faces ?G freq) = freq\<^sup>2"
    by (simp add: length_grid_faces power2_eq_square)
  show ?thesis
    using build_grid_pure [of radius v0 v1 v2 freq] shape
      subdivide_triangle_pure [of radius v0 v1 v2 freq] len
    unfolding grid_faces_explicit by blast
qed

theorem subdivide_triangle_faces_witness:
  "\<exists>verts faces. subdivide_triangle 1 (1, 0, 0) (0, 1, 0) (0, 0, 1) 2 = Inr (verts, faces) \<and>
     length faces = 4"
proof -
  have "(1::nat) \<le> 2" by simp
  from subdivide_triangle_faces [OF this, of 1 "(1, 0, 0)" "(0, 1, 0)" "(0, 0, 1)"]
  show ?thesis by auto
qed





section \<open>Frequency one\<close>





lemma projected_unit:
  "projected r (1, 0, 0) = (if r = 0 then (0, 0, 0) else (r, 0, 0))"
  "projected r (0, 1, 0) = (0, r, 0)"
  "projected r (0, 0, 1) = (0, 0, r)"
  by (simp_all add: projected_def)









section \<open>Vertex and face counts\<close>








end
